theory Spec2Isabelle
  imports Complex_Main "HOL-Library.Product_Lexorder"
begin

section \<open>The game of Nim (class \<open>Nim\<close> of nim.py)\<close>

text \<open>
  Python integers are unbounded, so pile sizes, pile indices, counts and players are
  \<open>int\<close>. The exceptions of \<open>Nim.move\<close> are all of class \<open>Exception\<close> and differ in
  their message only; the constructors below name them after the message
  ("Game already won", "Invalid pile", "Invalid number of objects"). \<open>IndexError\<close> and
  \<open>TypeError\<close> are the interpreter's own exceptions, raised by \<open>random.choice\<close> on an
  empty sequence and by unpacking or converting \<open>None\<close>; \<open>KeyError\<close> is raised by
  indexing a dictionary with an absent key.
\<close>

datatype error = GameAlreadyWon | InvalidPile | InvalidCount | IndexError | TypeError | KeyError

record Nim =
  piles :: "int list"
  player :: int
  winner :: "int option"

text \<open>\<open>Nim.__init__\<close>: the board is a copy of \<open>initial\<close>, player 0 moves first, no winner.\<close>

definition default_initial :: "int list" where
  "default_initial = [1, 3, 5, 7]"

definition Nim_init :: "int list \<Rightarrow> Nim" where
  "Nim_init initial = \<lparr>piles = initial, player = 0, winner = None\<rparr>"

text \<open>
  \<open>Nim.available_actions\<close>: the two nested loops, adding \<open>(i, j)\<close> to the set for
  every \<open>j\<close> of \<open>range(1, pile + 1)\<close>, which is the list \<open>[1..pile]\<close>.
\<close>

definition available_actions :: "int list \<Rightarrow> (int \<times> int) set" where
  "available_actions ps =
     fold (\<lambda>(i, pile) actions. fold (\<lambda>j actions. insert (int i, j) actions) [1..pile] actions)
       (enumerate 0 ps) {}"

definition other_player :: "int \<Rightarrow> int" where
  "other_player p = (if p = 1 then 0 else 1)"

definition switch_player :: "Nim \<Rightarrow> Nim" where
  "switch_player g = g\<lparr>player := other_player (player g)\<rparr>"

text \<open>
  \<open>Nim.move\<close> mutates the receiver and returns nothing, or raises. The model returns
  the outcome together with the state the receiver is left in.
\<close>

definition move :: "int \<times> int \<Rightarrow> Nim \<Rightarrow> (error + unit) \<times> Nim" where
  "move action g =
     (case action of (pile, count) \<Rightarrow>
        if winner g \<noteq> None then (Inl GameAlreadyWon, g)
        else if pile < 0 \<or> pile \<ge> int (length (piles g)) then (Inl InvalidPile, g)
        else if count < 1 \<or> count > piles g ! nat pile then (Inl InvalidCount, g)
        else
          let g1 = g\<lparr>piles := (piles g)[nat pile := piles g ! nat pile - count]\<rparr>;
              g2 = switch_player g1
          in if list_all (\<lambda>pile. pile = 0) (piles g2)
             then (Inr (), g2\<lparr>winner := Some (player g2)\<rparr>)
             else (Inr (), g2))"

text \<open>
  A sequence of \<open>move\<close> calls on one game object. The first exception ends the
  sequence, so \<open>Inr g\<close> is the state after the calls when every one of them succeeded.
\<close>

fun moves :: "(int \<times> int) list \<Rightarrow> Nim \<Rightarrow> error + Nim" where
  "moves [] g = Inr g"
| "moves (a # as) g =
     (case move a g of (Inl e, _) \<Rightarrow> Inl e | (Inr _, g') \<Rightarrow> moves as g')"

section \<open>The Q-learning agent (class \<open>NimAI\<close>)\<close>

text \<open>
  The table \<open>self.q\<close> is a dictionary from \<open>(tuple(state), action)\<close> to a number, so
  a map. Its values, the rewards and the two rates are Python numbers: doubles, and the
  small integers \<open>-1\<close>, \<open>0\<close> and \<open>1\<close>. Every finite double is a real number, so they
  have type \<open>real\<close>, and a stored \<open>0.0\<close> and the integer \<open>0\<close> are one value. Lookups
  and comparisons are exact on doubles. Each arithmetic operation yields its exact
  result rounded to a double: the rounding is the parameter \<open>fl\<close> of the functions
  that compute, so that what is proved of them holds whatever the rounding is. The
  infinities and NaN, which a result beyond the largest double would be, are not values
  of the model.
\<close>

record NimAI =
  q :: "int list \<times> (int \<times> int) \<rightharpoonup> real"
  alpha :: real
  epsilon :: real

text \<open>
  \<open>NimAI.__init__\<close>: an empty table and the two rates.
\<close>

definition NimAI_init :: "real \<Rightarrow> real \<Rightarrow> NimAI" where
  "NimAI_init a e = \<lparr>q = Map.empty, alpha = a, epsilon = e\<rparr>"

text \<open>
  The expression \<open>q_value if q_value else 0\<close> on the result of \<open>self.q.get(key)\<close>:
  \<open>None\<close> and a stored zero are both falsy.
\<close>

definition value_or_zero :: "real option \<Rightarrow> real" where
  "value_or_zero q_value = (case q_value of None \<Rightarrow> 0 | Some v \<Rightarrow> if v \<noteq> 0 then v else 0)"

text \<open>
  \<open>get_q_value\<close> reads the table with \<open>dict.get\<close>. It is a method of the agent, so the
  model returns the agent it leaves behind next to the value.
\<close>

definition get_q_value :: "NimAI \<Rightarrow> int list \<Rightarrow> int \<times> int \<Rightarrow> real \<times> NimAI" where
  "get_q_value ai state action =
     (let q_value = q ai (state, action)
      in case q_value of
           None \<Rightarrow> (0, ai)
         | Some v \<Rightarrow> if v \<noteq> 0 then (v, ai) else (0, ai))"

text \<open>
  The store \<open>self.q[(tuple(state), action)] = new_q\<close> that ends \<open>update_q_value\<close>, and
  \<open>update_q_value\<close> itself: the expression of line 137 has four operations, each
  rounded by \<open>fl\<close>.
\<close>

definition set_q_value :: "NimAI \<Rightarrow> int list \<Rightarrow> int \<times> int \<Rightarrow> real \<Rightarrow> NimAI" where
  "set_q_value ai state action new_q = ai\<lparr>q := (q ai)((state, action) \<mapsto> new_q)\<rparr>"

definition update_q_value ::
  "(real \<Rightarrow> real) \<Rightarrow> NimAI \<Rightarrow> int list \<Rightarrow> int \<times> int \<Rightarrow> real \<Rightarrow> real \<Rightarrow> real \<Rightarrow> NimAI" where
  "update_q_value fl ai state action old_q reward future_rewards =
     (let new_q = fl (old_q + fl (alpha ai * fl (fl (reward + future_rewards) - old_q)))
      in set_q_value ai state action new_q)"

text \<open>
  A Python set is iterated in an order that the language leaves open. The order is the
  parameter \<open>iter\<close>, from a set to the list of its elements as the \<open>for\<close> loop meets
  them. \<open>best_q_loop\<close> is the loop of \<open>best_future_reward\<close> over that list, with
  \<open>best_action_q_value\<close> starting as \<open>None\<close>; the function returns that variable, so
  its result is an option.
\<close>

fun best_q_loop :: "NimAI \<Rightarrow> int list \<Rightarrow> (int \<times> int) list \<Rightarrow> real option \<Rightarrow> real option" where
  "best_q_loop ai state [] best_action_q_value = best_action_q_value"
| "best_q_loop ai state (action # rest) best_action_q_value =
     (let q_value = value_or_zero (q ai (state, action))
      in if (case best_action_q_value of None \<Rightarrow> True | Some b \<Rightarrow> q_value > b)
         then best_q_loop ai state rest (Some q_value)
         else best_q_loop ai state rest best_action_q_value)"

definition best_future_reward ::
  "NimAI \<Rightarrow> ((int \<times> int) set \<Rightarrow> (int \<times> int) list) \<Rightarrow> int list \<Rightarrow> real option" where
  "best_future_reward ai iter state =
     (let actions = available_actions state
      in if actions = {} then Some 0
         else best_q_loop ai state (iter actions) None)"

text \<open>
  \<open>update\<close>: the old value, the best future reward, then the store. Adding \<open>None\<close> to
  the reward would raise \<open>TypeError\<close>.
\<close>

definition update ::
  "(real \<Rightarrow> real) \<Rightarrow> NimAI \<Rightarrow> ((int \<times> int) set \<Rightarrow> (int \<times> int) list) \<Rightarrow> int list \<Rightarrow> int \<times> int \<Rightarrow> int list \<Rightarrow> real
     \<Rightarrow> error + NimAI" where
  "update fl ai iter old_state action new_state reward =
     (case get_q_value ai old_state action of (old, ai1) \<Rightarrow>
        (case best_future_reward ai1 iter new_state of
           None \<Rightarrow> Inl TypeError
         | Some best_future \<Rightarrow> Inr (update_q_value fl ai1 old_state action old reward best_future)))"

text \<open>
  The rounding of the interpreter's doubles: IEEE 754 binary64, to nearest with ties to
  even. A double is a multiple of \<open>2^(e - 52)\<close> where \<open>2^e\<close> is the power of two at or
  below its magnitude, and of \<open>2^(-1074)\<close> below \<open>2^(-1022)\<close>. \<open>round_double\<close> is that
  rounding on the reals of magnitude below the largest double; beyond it the
  interpreter yields an infinity, which is no real number.
\<close>

definition round_half_even :: "real \<Rightarrow> int" where
  "round_half_even x =
     (let f = \<lfloor>x\<rfloor>; d = x - of_int f
      in if d < 1 / 2 then f else if 1 / 2 < d then f + 1 else if even f then f else f + 1)"

definition pow2 :: "int \<Rightarrow> real" where
  "pow2 e = (if 0 \<le> e then 2 ^ nat e else 1 / 2 ^ nat (- e))"

definition round_double :: "real \<Rightarrow> real" where
  "round_double x =
     (if x = 0 then 0
      else let e = max (- 1022) \<lfloor>log 2 \<bar>x\<bar>\<rfloor>; ulp = pow2 (e - 52)
           in of_int (round_half_even (x / ulp)) * ulp)"

text \<open>
  \<open>random.choice(seq)\<close> raises \<open>IndexError\<close> on an empty sequence and otherwise
  returns one of its elements; \<open>k\<close> stands for the generator's draw.
\<close>

definition random_choice :: "nat \<Rightarrow> 'a list \<Rightarrow> error + 'a" where
  "random_choice k xs = (if xs = [] then Inl IndexError else Inr (xs ! (k mod length xs)))"

text \<open>
  The loop of \<open>choose_action\<close> over the actions, and \<open>choose_action\<close>. Its flag is
  named \<open>epsilon\<close> in the source, as the rate is; here it is \<open>explore\<close>. The pair
  \<open>draw\<close> holds the result of \<open>random.random()\<close> and the draw of \<open>random.choice\<close>.
\<close>

fun best_action_loop ::
  "NimAI \<Rightarrow> int list \<Rightarrow> (int \<times> int) list \<Rightarrow> (int \<times> int) option \<times> real option
     \<Rightarrow> (int \<times> int) option \<times> real option" where
  "best_action_loop ai state [] best = best"
| "best_action_loop ai state (action # rest) (best_action, best_action_q_value) =
     (let q_value = value_or_zero (q ai (state, action))
      in if (case best_action_q_value of None \<Rightarrow> True | Some b \<Rightarrow> q_value > b)
         then best_action_loop ai state rest (Some action, Some q_value)
         else best_action_loop ai state rest (best_action, best_action_q_value))"

definition choose_action ::
  "NimAI \<Rightarrow> ((int \<times> int) set \<Rightarrow> (int \<times> int) list) \<Rightarrow> real \<times> nat \<Rightarrow> int list \<Rightarrow> bool
     \<Rightarrow> error + (int \<times> int) option" where
  "choose_action ai iter draw state explore =
     (case draw of (epsilon_probability_random_move, k) \<Rightarrow>
        let actions = available_actions state
        in if explore \<and> epsilon_probability_random_move < epsilon ai
           then map_sum id Some (random_choice k (iter actions))
           else Inr (fst (best_action_loop ai state (iter actions) (None, None))))"

section \<open>Self-play training (function \<open>train\<close>)\<close>





text \<open>
  Every successful move lowers the sum of the positive parts of the piles, which bounds
  the number of iterations of the game loop.
\<close>

lemma move_success:
  assumes "move a g = (Inr u, g')"
  shows "winner g = None" "0 \<le> fst a" "fst a < int (length (piles g))"
    "1 \<le> snd a" "snd a \<le> piles g ! nat (fst a)"
    "piles g' = (piles g)[nat (fst a) := piles g ! nat (fst a) - snd a]"
    "player g' = other_player (player g)"
    "winner g' \<noteq> None \<longleftrightarrow> list_all (\<lambda>p. p = 0) (piles g')"
    "winner g' \<noteq> None \<Longrightarrow> winner g' = Some (player g')"
  using assms
  by (auto simp: move_def Let_def switch_player_def split: prod.splits if_splits)









section \<open>Legal actions\<close>

lemma fold_insert_image: "fold (\<lambda>j A. insert (f j) A) xs A = A \<union> f ` set xs"
  by (induction xs arbitrary: A) auto

lemma actions_fold_from:
  "fold (\<lambda>(i, pile) actions. actions \<union> (\<lambda>j. (int i, j)) ` set [1..pile]) (enumerate k ps) A =
     A \<union> {(int i, j) | i j. k \<le> i \<and> i < k + length ps \<and> 1 \<le> j \<and> j \<le> ps ! (i - k)}"
proof (induction ps arbitrary: k A)
  case Nil
  then show ?case by auto
next
  case (Cons p ps)
  have "{(int i, j) | i j. k \<le> i \<and> i < k + length (p # ps) \<and> 1 \<le> j \<and> j \<le> (p # ps) ! (i - k)}
      = (\<lambda>j. (int k, j)) ` set [1..p] \<union>
        {(int i, j) | i j. Suc k \<le> i \<and> i < Suc k + length ps \<and> 1 \<le> j \<and> j \<le> ps ! (i - Suc k)}"
    (is "?L = ?A \<union> ?B")
  proof (intro set_eqI iffI)
    fix x assume "x \<in> ?L"
    then obtain i j where x: "x = (int i, j)" and i: "k \<le> i" "i < k + length (p # ps)"
      and j: "1 \<le> j" "j \<le> (p # ps) ! (i - k)"
      by blast
    show "x \<in> ?A \<union> ?B"
    proof (cases "i = k")
      case True
      with x j show ?thesis by auto
    next
      case False
      with i have "Suc k \<le> i" "i < Suc k + length ps" by auto
      moreover from False i have "(p # ps) ! (i - k) = ps ! (i - Suc k)"
        by (metis Suc_diff_Suc diff_Suc_eq_diff_pred le_neq_implies_less nth_Cons_Suc Suc_pred zero_less_diff)
      ultimately show ?thesis using x j by auto
    qed
  next
    fix x assume "x \<in> ?A \<union> ?B"
    then show "x \<in> ?L"
    proof
      assume "x \<in> ?A" then show ?thesis by auto
    next
      assume "x \<in> ?B"
      then obtain i j where x: "x = (int i, j)" and i: "Suc k \<le> i" "i < Suc k + length ps"
        and j: "1 \<le> j" "j \<le> ps ! (i - Suc k)"
        by blast
      from i have "(p # ps) ! (i - k) = ps ! (i - Suc k)"
        by (metis Suc_diff_le diff_Suc_Suc nth_Cons_Suc)
      with x i j show ?thesis by auto
    qed
  qed
  then show ?case
    by (simp add: Cons.IH Un_assoc del: set_upto)
qed

lemma available_actions_nat:
  "available_actions ps = {(int i, j) | i j. i < length ps \<and> 1 \<le> j \<and> j \<le> ps ! i}"
  unfolding available_actions_def fold_insert_image actions_fold_from by simp

lemma available_actions_int:
  "available_actions ps = {(i, j). 0 \<le> i \<and> i < int (length ps) \<and> 1 \<le> j \<and> j \<le> ps ! nat i}"
proof -
  have "\<And>i j. 0 \<le> i \<Longrightarrow> i < int (length ps) \<Longrightarrow> \<exists>n. i = int n \<and> n < length ps"
    by (metis nat_int zless_nat_eq_int_zless nonneg_int_cases of_nat_less_iff)
  then show ?thesis unfolding available_actions_nat by (auto; force)
qed

lemma available_actions_UN:
  "available_actions ps = (\<Union>i<length ps. (\<lambda>j. (int i, j)) ` {1..ps ! i})"
  unfolding available_actions_nat by auto

lemma finite_available_actions: "finite (available_actions ps)"
  unfolding available_actions_UN by simp

lemma card_available_actions: "card (available_actions ps) = sum_list (map nat ps)"
proof -
  have "card (available_actions ps) = (\<Sum>i<length ps. card ((\<lambda>j. (int i, j)) ` {1..ps ! i}))"
    unfolding available_actions_UN by (rule card_UN_disjoint) auto
  also have "\<dots> = (\<Sum>i<length ps. nat (ps ! i))"
    by (rule sum.cong) (auto simp: card_image inj_on_def)
  also have "\<dots> = sum_list (map nat ps)"
    by (simp add: sum_list_sum_nth atLeast0LessThan)
  finally show ?thesis .
qed

lemma sum_list_map_nat: "list_all (\<lambda>p. 0 \<le> p) ps \<Longrightarrow> int (sum_list (map nat ps)) = sum_list ps"
  by (induction ps) auto

lemma available_actions_all_zero: "list_all (\<lambda>p. p = 0) ps \<Longrightarrow> available_actions ps = {}"
  unfolding available_actions_nat by (auto simp: list_all_length)

text \<open>
  Claim C7. For a pile configuration of non-negative integers, \<open>available_actions\<close> is
  exactly the set of pairs \<open>(i, j)\<close> with \<open>0 \<le> i < len(p)\<close> and \<open>1 \<le> j \<le> p[i]\<close>; it has
  \<open>sum(p)\<close> elements, and it is empty when every pile is 0.
\<close>

theorem available_actions_exact:
  assumes "list_all (\<lambda>p. 0 \<le> p) ps"
  shows "available_actions ps =
           {(i, j). 0 \<le> i \<and> i < int (length ps) \<and> 1 \<le> j \<and> j \<le> ps ! nat i}
         \<and> int (card (available_actions ps)) = sum_list ps
         \<and> (list_all (\<lambda>p. p = 0) ps \<longrightarrow> available_actions ps = {})"
  using assms
  by (simp add: available_actions_int [symmetric] card_available_actions sum_list_map_nat
      available_actions_all_zero)

theorem available_actions_exact_witness:
  "list_all (\<lambda>p. 0 \<le> p) [1, 2 :: int]
   \<and> available_actions [1, 2] = {(0, 1), (1, 1), (1, 2)}
   \<and> int (card (available_actions [1, 2])) = 3"
proof -
  have h: "list_all (\<lambda>p. 0 \<le> p) [1, 2 :: int]" by simp
  have e: "available_actions [1, 2] = {(0, 1), (1, 1), (1, 2)}"
    by (auto simp: available_actions_def upto.simps)
  from available_actions_exact [OF h]
  have c: "int (card (available_actions [1, 2])) = sum_list [1, 2]" by blast
  from h e c show ?thesis by simp
qed

section \<open>Moves\<close>

text \<open>
  Claim C1, as the code has it. On a fresh game with piles \<open>[1]\<close>, \<open>move((0, 1))\<close>
  succeeds and leaves piles \<open>[0]\<close>, the current player switched from 0 to 1, and
  \<open>winner\<close> set to the new current player 1, who is the opponent of the player that
  made the move.
\<close>

theorem move_last_object:
  "move (0, 1) (Nim_init [1]) = (Inr (), \<lparr>piles = [0], player = 1, winner = Some 1\<rparr>)"
  by (simp add: move_def Nim_init_def switch_player_def other_player_def)

text \<open>The claim as written names the mover, player 0, as the winner.\<close>

theorem move_last_object_counterexample:
  "\<not> (fst (move (0, 1) (Nim_init [1])) = Inr ()
      \<and> piles (snd (move (0, 1) (Nim_init [1]))) = [0]
      \<and> player (snd (move (0, 1) (Nim_init [1]))) = 1
      \<and> winner (snd (move (0, 1) (Nim_init [1]))) = Some 0)"
  by (simp add: move_def Nim_init_def switch_player_def other_player_def)

text \<open>
  Claim C5. \<open>move\<close> raises "Game already won" exactly when a winner is set; otherwise
  "Invalid pile" exactly when the pile index is outside \<open>[0, numPiles)\<close>; otherwise
  "Invalid number of objects" exactly when \<open>count < 1\<close> or \<open>count > piles[pileIndex]\<close>;
  otherwise it succeeds.
\<close>

theorem move_error_order:
  "(fst (move (pile, count) g) = Inl GameAlreadyWon \<longleftrightarrow> winner g \<noteq> None) \<and>
   (winner g = None \<longrightarrow>
      (fst (move (pile, count) g) = Inl InvalidPile \<longleftrightarrow>
         pile < 0 \<or> int (length (piles g)) \<le> pile)) \<and>
   (winner g = None \<and> 0 \<le> pile \<and> pile < int (length (piles g)) \<longrightarrow>
      (fst (move (pile, count) g) = Inl InvalidCount \<longleftrightarrow>
         count < 1 \<or> piles g ! nat pile < count)) \<and>
   (winner g = None \<and> 0 \<le> pile \<and> pile < int (length (piles g))
      \<and> 1 \<le> count \<and> count \<le> piles g ! nat pile \<longrightarrow>
      fst (move (pile, count) g) = Inr ())"
  by (auto simp: move_def Let_def)

theorem move_error_order_witness:
  "fst (move (0, 1) \<lparr>piles = [0], player = 1, winner = Some 1\<rparr>) = Inl GameAlreadyWon
   \<and> fst (move (4, 1) (Nim_init default_initial)) = Inl InvalidPile
   \<and> fst (move (1, 4) (Nim_init default_initial)) = Inl InvalidCount
   \<and> fst (move (1, 3) (Nim_init default_initial)) = Inr ()"
  using move_error_order [of 0 1 "\<lparr>piles = [0], player = 1, winner = Some 1\<rparr>"]
    move_error_order [of 4 1 "Nim_init default_initial"]
    move_error_order [of 1 4 "Nim_init default_initial"]
    move_error_order [of 1 3 "Nim_init default_initial"]
  by (simp add: Nim_init_def default_initial_def)

text \<open>
  Claim C10. When \<open>move\<close> raises, whichever of the three errors it is, the game object is
  left as it was: piles, current player and winner are unchanged.
\<close>

theorem move_error_keeps_state:
  "fst (move a g) = Inl e \<Longrightarrow> snd (move a g) = g"
  by (auto simp: move_def Let_def split: prod.splits if_splits)

theorem move_error_keeps_state_witness:
  "fst (move (1, 4) (Nim_init default_initial)) = Inl InvalidCount
   \<and> snd (move (1, 4) (Nim_init default_initial)) = Nim_init default_initial"
proof -
  have h: "fst (move (1, 4) (Nim_init default_initial)) = Inl InvalidCount"
    by (simp add: move_def Nim_init_def default_initial_def)
  from h move_error_keeps_state [OF h] show ?thesis by simp
qed

section \<open>The winner invariant\<close>

lemma move_won: "winner g \<noteq> None \<Longrightarrow> fst (move a g) = Inl GameAlreadyWon"
  by (cases a) (simp add: move_def)

lemma moves_Cons_Inr:
  "moves (a # as) g = Inr g2 \<longleftrightarrow> (\<exists>g1. move a g = (Inr (), g1) \<and> moves as g1 = Inr g2)"
  by (auto split: prod.splits sum.splits)

lemma moves_append:
  "moves as g = Inr g1 \<Longrightarrow> moves (as @ bs) g = moves bs g1"
  by (induction as arbitrary: g) (auto split: prod.splits sum.splits)

lemma moves_winner_iff:
  "moves as g = Inr g2 \<Longrightarrow> as \<noteq> [] \<Longrightarrow>
     (winner g2 \<noteq> None \<longleftrightarrow> list_all (\<lambda>p. p = 0) (piles g2))"
proof (induction as arbitrary: g)
  case Nil
  then show ?case by simp
next
  case (Cons a as)
  from Cons.prems(1) obtain g1 where m: "move a g = (Inr (), g1)" and r: "moves as g1 = Inr g2"
    unfolding moves_Cons_Inr by blast
  show ?case
  proof (cases "as = []")
    case True
    with r have "g2 = g1" by simp
    with move_success(8) [OF m] show ?thesis by simp
  next
    case False
    with Cons.IH [OF r] show ?thesis by simp
  qed
qed

lemma move_piles_le:
  assumes "move a g = (Inr u, g')"
  shows "length (piles g') = length (piles g)"
    and "i < length (piles g) \<Longrightarrow> piles g' ! i \<le> piles g ! i"
  using move_success [OF assms]
  by (auto simp: nth_list_update)

lemma moves_piles_le:
  "moves as g = Inr g2 \<Longrightarrow>
     length (piles g2) = length (piles g) \<and> (\<forall>i < length (piles g). piles g2 ! i \<le> piles g ! i)"
proof (induction as arbitrary: g)
  case Nil
  then show ?case by simp
next
  case (Cons a as)
  from Cons.prems obtain g1 where m: "move a g = (Inr (), g1)" and r: "moves as g1 = Inr g2"
    unfolding moves_Cons_Inr by blast
  from Cons.IH [OF r] move_piles_le [OF m] show ?case
    by (metis order_trans)
qed

text \<open>
  Claim C3, as the code has it. For every game object produced by the constructor and
  any sequence of successful \<open>move\<close> calls: a winner is set only when every pile is 0;
  when every pile is 0 a winner is set, provided that at least one move was made or that
  the initial piles were not all 0; once a winner is set every \<open>move\<close> raises
  "Game already won"; and no pile ever grows, nor does the number of piles change.
\<close>

theorem winner_invariant:
  assumes "moves as (Nim_init initial) = Inr g1" and "moves bs g1 = Inr g2"
  shows "(winner g2 \<noteq> None \<longrightarrow> list_all (\<lambda>p. p = 0) (piles g2))
       \<and> (as @ bs \<noteq> [] \<longrightarrow> (winner g2 \<noteq> None \<longleftrightarrow> list_all (\<lambda>p. p = 0) (piles g2)))
       \<and> (\<not> list_all (\<lambda>p. p = 0) initial \<longrightarrow>
            (winner g2 \<noteq> None \<longleftrightarrow> list_all (\<lambda>p. p = 0) (piles g2)))
       \<and> (winner g2 \<noteq> None \<longrightarrow> (\<forall>a. fst (move a g2) = Inl GameAlreadyWon))
       \<and> length (piles g2) = length (piles g1)
       \<and> (\<forall>i < length (piles g1). piles g2 ! i \<le> piles g1 ! i)"
proof -
  from assms have all: "moves (as @ bs) (Nim_init initial) = Inr g2"
    by (simp add: moves_append)
  have iff: "winner g2 \<noteq> None \<longleftrightarrow> list_all (\<lambda>p. p = 0) (piles g2)" if "as @ bs \<noteq> []"
    using moves_winner_iff [OF all that] .
  have fresh: "g2 = Nim_init initial" if "as @ bs = []"
    using all that by simp
  have a: "winner g2 \<noteq> None \<longrightarrow> list_all (\<lambda>p. p = 0) (piles g2)"
    using iff fresh by (cases "as @ bs = []") (simp_all add: Nim_init_def)
  have c: "\<not> list_all (\<lambda>p. p = 0) initial \<longrightarrow>
            (winner g2 \<noteq> None \<longleftrightarrow> list_all (\<lambda>p. p = 0) (piles g2))"
    using iff fresh by (cases "as @ bs = []") (simp_all add: Nim_init_def)
  from a iff c move_won moves_piles_le [OF assms(2)] show ?thesis by blast
qed

text \<open>
  The claim as written fails on a game constructed with all piles 0 and not moved:
  every pile is 0 and no winner is set.
\<close>

theorem winner_invariant_counterexample:
  "list_all (\<lambda>p. 0 \<le> p) [0 :: int]
   \<and> moves [] (Nim_init [0]) = Inr (Nim_init [0])
   \<and> list_all (\<lambda>p. p = 0) (piles (Nim_init [0]))
   \<and> winner (Nim_init [0]) = None"
  by (simp add: Nim_init_def)

theorem winner_invariant_witness:
  "moves [(0, 1)] (Nim_init [1, 1]) = Inr \<lparr>piles = [0, 1], player = 1, winner = None\<rparr>
   \<and> moves [(1, 1)] \<lparr>piles = [0, 1], player = 1, winner = None\<rparr>
       = Inr \<lparr>piles = [0, 0], player = 0, winner = Some 0\<rparr>
   \<and> fst (move (0, 1) \<lparr>piles = [0, 0], player = 0, winner = Some 0\<rparr>) = Inl GameAlreadyWon"
proof -
  have a: "moves [(0, 1)] (Nim_init [1, 1]) = Inr \<lparr>piles = [0, 1], player = 1, winner = None\<rparr>"
    by (simp add: move_def Nim_init_def switch_player_def other_player_def)
  have b: "moves [(1, 1)] \<lparr>piles = [0, 1], player = 1, winner = None\<rparr>
       = Inr \<lparr>piles = [0, 0], player = 0, winner = Some 0\<rparr>"
    by (simp add: move_def switch_player_def other_player_def)
  from winner_invariant [OF a b] a b show ?thesis by simp
qed


section \<open>The Q-table and the agent\<close>

lemma fst_get_q_value: "fst (get_q_value ai state action) = value_or_zero (q ai (state, action))"
  by (simp add: get_q_value_def value_or_zero_def split: option.splits)

lemma snd_get_q_value: "snd (get_q_value ai state action) = ai"
  by (simp add: get_q_value_def split: option.splits)

lemma best_q_loop_Some:
  "best_q_loop ai state xs (Some b) =
     Some (Max (insert b ((\<lambda>a. value_or_zero (q ai (state, a))) ` set xs)))"
proof (induction xs arbitrary: b)
  case Nil
  then show ?case by simp
next
  case (Cons x xs)
  let ?v = "value_or_zero (q ai (state, x))"
  let ?S = "(\<lambda>a. value_or_zero (q ai (state, a))) ` set xs"
  have fin: "finite ?S" by simp
  have m: "Max (insert b (insert ?v ?S)) = Max (insert (max b ?v) ?S)"
  proof (cases "?S = {}")
    case True
    then show ?thesis by (simp add: max.commute)
  next
    case False
    with fin show ?thesis by (simp add: max.assoc)
  qed
  show ?case
  proof (cases "?v > b")
    case True
    then have "max b ?v = ?v" by simp
    with True m Cons.IH [of ?v] show ?thesis by simp
  next
    case False
    then have "max b ?v = b" by simp
    with False m Cons.IH [of b] show ?thesis by simp
  qed
qed

lemma best_q_loop_None:
  "xs \<noteq> [] \<Longrightarrow>
     best_q_loop ai state xs None = Some (Max ((\<lambda>a. value_or_zero (q ai (state, a))) ` set xs))"
  by (cases xs) (simp_all add: best_q_loop_Some)

lemma best_future_reward_eq:
  assumes "set (iter (available_actions state)) = available_actions state"
  shows "best_future_reward ai iter state =
           (if available_actions state = {} then Some 0
            else Some (Max ((\<lambda>a. value_or_zero (q ai (state, a))) ` available_actions state)))"
proof -
  have "iter (available_actions state) \<noteq> []" if "available_actions state \<noteq> {}"
    using assms that by auto
  then show ?thesis
    using assms by (auto simp: best_future_reward_def best_q_loop_None)
qed

text \<open>
  Claim C6. \<open>best_future_reward\<close> returns 0 when the state has no available action,
  and otherwise the maximum over the available actions of \<open>get_q_value\<close>, where a pair
  absent from the table counts as 0. The order in which the interpreter iterates over
  the set of actions is the parameter \<open>iter\<close>, of which only that it enumerates the set
  is assumed.
\<close>

theorem best_future_reward_max:
  assumes "set (iter (available_actions state)) = available_actions state"
  shows "(available_actions state = {} \<longrightarrow> best_future_reward ai iter state = Some 0)
       \<and> (available_actions state \<noteq> {} \<longrightarrow>
            best_future_reward ai iter state =
              Some (Max ((\<lambda>a. fst (get_q_value ai state a)) ` available_actions state)))
       \<and> (\<forall>a. q ai (state, a) = None \<longrightarrow> fst (get_q_value ai state a) = 0)"
  using best_future_reward_eq [where iter = iter and state = state and ai = ai, OF assms]
  by (auto simp: fst_get_q_value value_or_zero_def)

theorem best_future_reward_max_witness:
  "best_future_reward (set_q_value (NimAI_init (1/2) (1/10)) [1, 2] (1, 1) (1/4)) sorted_list_of_set [1, 2]
     = Some (1/4)
   \<and> best_future_reward (set_q_value (NimAI_init (1/2) (1/10)) [1, 2] (1, 1) (1/4)) sorted_list_of_set [0, 0]
     = Some 0"
proof -
  let ?ai = "set_q_value (NimAI_init (1/2) (1/10)) [1, 2] (1, 1) (1/4)"
  have e: "available_actions [1, 2] = {(0, 1), (1, 1), (1, 2)}"
    by (auto simp: available_actions_def upto.simps)
  have z: "available_actions [0, 0] = {}"
    by (auto simp: available_actions_def upto.simps)
  have h1: "set (sorted_list_of_set (available_actions [1, 2])) = available_actions [1, 2]"
    by (simp add: finite_available_actions)
  have h2: "set (sorted_list_of_set (available_actions [0, 0])) = available_actions [0, 0]"
    by (simp add: finite_available_actions)
  from best_future_reward_max [where iter = sorted_list_of_set and state = "[1, 2]" and ai = ?ai, OF h1]
    best_future_reward_max [where iter = sorted_list_of_set and state = "[0, 0]" and ai = ?ai, OF h2] e z
  show ?thesis
    by (simp add: get_q_value_def set_q_value_def NimAI_init_def)
qed

text \<open>
  Claim C8. On an empty table \<open>get_q_value\<close> returns 0 for every key; after the store
  \<open>self.q[(state, action)] = v\<close> it returns \<open>v\<close> for that key; and it leaves the agent,
  table included, as it was.
\<close>

theorem q_table_round_trip:
  "fst (get_q_value (NimAI_init a e) state action) = 0
   \<and> fst (get_q_value (set_q_value ai state action v) state action) = v
   \<and> snd (get_q_value ai state action) = ai"
  by (simp add: fst_get_q_value snd_get_q_value set_q_value_def NimAI_init_def value_or_zero_def)

lemma pow2_powr: "pow2 e = 2 powr (of_int e)"
  by (simp add: pow2_def powr_real_of_int inverse_eq_divide)

lemma round_double_binade:
  assumes "pow2 e \<le> \<bar>x\<bar>" and "\<bar>x\<bar> < pow2 (e + 1)" and "- 1022 \<le> e"
  shows "round_double x = of_int (round_half_even (x / pow2 (e - 52))) * pow2 (e - 52)"
proof -
  have "0 < pow2 e" by (simp add: pow2_def)
  with assms(1) have pos: "0 < \<bar>x\<bar>" by linarith
  from assms(1,2) have "2 powr (of_int e) \<le> \<bar>x\<bar> \<and> \<bar>x\<bar> < 2 powr (of_int e + 1)"
    by (simp add: pow2_powr)
  with pos have "\<lfloor>log 2 \<bar>x\<bar>\<rfloor> = e"
    by (simp add: floor_log_eq_powr_iff)
  with pos assms(3) show ?thesis
    by (simp add: round_double_def Let_def max_def)
qed

text \<open>
  Claim C4. \<open>update\<close> stores at \<open>(old_state, action)\<close> the value of
  \<open>old + alpha * ((reward + best_future) - old)\<close> as line 137 computes it, each of its four
  operations rounded, where \<open>old\<close> is \<open>get_q_value\<close> of that key and \<open>best_future\<close> is
  \<open>best_future_reward\<close> of the new state. When both are 0 and the reward is a double,
  the stored value is the product \<open>alpha * reward\<close> as the interpreter computes it. This
  holds for every rounding \<open>fl\<close>; of \<open>fl\<close> the second part uses only that it leaves the
  reward and the rounded product unchanged, as rounding does with any double.
\<close>

theorem update_stores_formula:
  assumes "set (iter (available_actions new_state)) = available_actions new_state"
  shows "\<exists>best_future ai'.
           best_future_reward ai iter new_state = Some best_future
         \<and> update fl ai iter old_state action new_state reward = Inr ai'
         \<and> q ai' (old_state, action) =
             Some (fl (fst (get_q_value ai old_state action)
                       + fl (alpha ai * fl (fl (reward + best_future)
                                            - fst (get_q_value ai old_state action)))))
         \<and> (fst (get_q_value ai old_state action) = 0 \<and> best_future = 0
              \<and> fl reward = reward \<and> fl (fl (alpha ai * reward)) = fl (alpha ai * reward) \<longrightarrow>
              q ai' (old_state, action) = Some (fl (alpha ai * reward)))"
proof -
  from best_future_reward_eq [where iter = iter and state = new_state and ai = ai, OF assms]
  obtain bf where bf: "best_future_reward ai iter new_state = Some bf"
    by (cases "available_actions new_state = {}") auto
  obtain old where old: "get_q_value ai old_state action = (old, ai)"
    using snd_get_q_value [of ai old_state action] by (cases "get_q_value ai old_state action") simp
  have "update fl ai iter old_state action new_state reward =
          Inr (update_q_value fl ai old_state action old reward bf)"
    by (simp add: update_def old bf)
  with bf old show ?thesis
    by (simp add: update_q_value_def set_q_value_def)
qed

theorem update_stores_formula_witness:
  "update round_double (NimAI_init (1/2) (1/10)) sorted_list_of_set [1] (0, 1) [0] (- 1)
     = Inr (set_q_value (NimAI_init (1/2) (1/10)) [1] (0, 1) (- 1/2))
   \<and> update round_double (set_q_value (NimAI_init (1/2) (1/10)) [1] (0, 1) (1 - 1 / 2 ^ 53))
        sorted_list_of_set [1] (0, 1) [0] 1
     = Inr (set_q_value (NimAI_init (1/2) (1/10)) [1] (0, 1) 1)"
proof -
  let ?ai = "NimAI_init (1/2) (1/10)"
  let ?ai2 = "set_q_value ?ai [1] (0, 1) (1 - 1 / 2 ^ 53)"
  have z: "available_actions [0] = {}"
    by (auto simp: available_actions_def upto.simps)
  have h: "set (sorted_list_of_set (available_actions [0])) = available_actions [0]"
    by (simp add: finite_available_actions)
  have r1: "round_double (- 1) = - 1"
    using round_double_binade [of 0 "- 1"] by (simp add: pow2_def round_half_even_def Let_def)
  have r2: "round_double (- 1 / 2) = - 1 / 2"
    using round_double_binade [of "- 1" "- 1 / 2"] by (simp add: pow2_def round_half_even_def Let_def)
  have r3: "round_double 1 = 1"
    using round_double_binade [of 0 1] by (simp add: pow2_def round_half_even_def Let_def)
  have r4: "round_double (1 / 2 ^ 53) = 1 / 2 ^ 53"
    using round_double_binade [of "- 53" "1 / 2 ^ 53"]
    by (simp add: pow2_def round_half_even_def Let_def)
  have r5: "round_double (1 / 2 ^ 54) = 1 / 2 ^ 54"
    using round_double_binade [of "- 54" "1 / 2 ^ 54"]
    by (simp add: pow2_def round_half_even_def Let_def)
  have r6: "round_double (1 - 1 / 2 ^ 54) = 1"
    using round_double_binade [of "- 1" "1 - 1 / 2 ^ 54"]
    by (simp add: pow2_def round_half_even_def Let_def)
  have g1: "fst (get_q_value ?ai [1] (0, 1)) = 0" "alpha ?ai = 1 / 2"
    by (simp_all add: get_q_value_def NimAI_init_def)
  have g2: "fst (get_q_value ?ai2 [1] (0, 1)) = 1 - 1 / 2 ^ 53" "alpha ?ai2 = 1 / 2"
    by (simp_all add: get_q_value_def set_q_value_def NimAI_init_def)
  have b: "best_future_reward ai sorted_list_of_set [0] = Some 0" for ai
    by (simp add: best_future_reward_def z)
  from update_stores_formula [where fl = round_double and iter = sorted_list_of_set
      and new_state = "[0]" and ai = ?ai and old_state = "[1]" and action = "(0, 1)"
      and reward = "- 1", OF h]
  obtain ai' where u1: "update round_double ?ai sorted_list_of_set [1] (0, 1) [0] (- 1) = Inr ai'"
    and q1: "q ai' ([1], (0, 1)) = Some (round_double (1 / 2 * - 1))"
    unfolding b g1 using r1 r2 by auto
  have e1: "update round_double ?ai sorted_list_of_set [1] (0, 1) [0] (- 1)
      = Inr (set_q_value ?ai [1] (0, 1) (- 1/2))"
    using r1 r2
    by (simp add: update_def b update_q_value_def get_q_value_def set_q_value_def NimAI_init_def)
  have s1: "round_double (1 - (1 - 1 / 2 ^ 53)) = 1 / 2 ^ 53"
    using r4 by simp
  have s2: "round_double (1 / 2 * (1 / 2 ^ 53)) = 1 / 2 ^ 54"
    using r5 by simp
  have s3: "round_double (1 - 1 / 2 ^ 53 + 1 / 2 ^ 54) = 1"
    using r6 by simp
  have "update_q_value round_double ?ai2 [1] (0, 1) (1 - 1 / 2 ^ 53) 1 0
      = set_q_value ?ai2 [1] (0, 1) 1"
    unfolding update_q_value_def Let_def g2 by (simp only: add_0_right r3 s1 s2 s3)
  moreover have "set_q_value ?ai2 [1] (0, 1) 1 = set_q_value ?ai [1] (0, 1) 1"
    by (simp add: set_q_value_def)
  moreover have "get_q_value ?ai2 [1] (0, 1) = (1 - 1 / 2 ^ 53, ?ai2)"
    by (simp add: get_q_value_def set_q_value_def NimAI_init_def)
  ultimately have e2: "update round_double ?ai2 sorted_list_of_set [1] (0, 1) [0] 1
      = Inr (set_q_value ?ai [1] (0, 1) 1)"
    by (simp add: update_def b)
  from u1 e1 e2 show ?thesis by simp
qed


text \<open>
  Claim C2, as the code has it. On a state with no available action, \<open>choose_action\<close>
  raises \<open>IndexError\<close> (from \<open>random.choice\<close> on an empty list) when exploring is
  enabled and the random draw is below \<open>epsilon\<close>; otherwise it returns \<open>None\<close>
  without raising. It never returns an action.
\<close>

theorem choose_action_no_actions:
  assumes "available_actions state = {}"
    and "set (iter (available_actions state)) = available_actions state"
  shows "choose_action ai iter (u, k) state explore =
           (if explore \<and> u < epsilon ai then Inl IndexError else Inr None)"
proof -
  from assms have "iter (available_actions state) = []" by simp
  then show ?thesis
    by (simp add: choose_action_def random_choice_def Let_def)
qed

theorem choose_action_no_actions_witness:
  "choose_action (NimAI_init (1/2) (1/10)) sorted_list_of_set (0, 0) [0, 0] True = Inl IndexError
   \<and> choose_action (NimAI_init (1/2) (1/10)) sorted_list_of_set (1/2, 0) [0, 0] True = Inr None
   \<and> choose_action (NimAI_init (1/2) (1/10)) sorted_list_of_set (0, 0) [0, 0] False = Inr None"
proof -
  have z: "available_actions [0, 0] = {}"
    by (auto simp: available_actions_def upto.simps)
  have h: "set (sorted_list_of_set (available_actions [0, 0])) = available_actions [0, 0]"
    by (simp add: finite_available_actions)
  from choose_action_no_actions [where iter = sorted_list_of_set and state = "[0, 0]"
      and ai = "NimAI_init (1/2) (1/10)", OF z h]
  show ?thesis
    by (simp add: NimAI_init_def)
qed

text \<open>
  The claim as written has \<open>choose_action\<close> raise on such a state for either value of
  the flag. On the state \<open>[0]\<close> it returns \<open>None\<close> with exploring disabled, and with
  exploring enabled when the draw is not below \<open>epsilon\<close>.
\<close>

theorem choose_action_no_actions_counterexample:
  "available_actions [0] = {}
   \<and> choose_action (NimAI_init (1/2) (1/10)) sorted_list_of_set (0, 0) [0] False = Inr None
   \<and> choose_action (NimAI_init (1/2) (1/10)) sorted_list_of_set (1/2, 0) [0] True = Inr None"
proof -
  have z: "available_actions [0] = {}"
    by (auto simp: available_actions_def upto.simps)
  then show ?thesis
    by (simp add: choose_action_def NimAI_init_def Let_def)
qed


section \<open>Termination of training\<close>






















end
